theory Spec2Isabelle
  imports Main "HOL-Library.AList"
begin

section \<open>JavaScript values and the object heap\<close>

text \<open>
  The template functions of \<^verbatim>\<open>src/libs/swig_functions.js\<close> work on JSON content: the
  store handed to \<^verbatim>\<open>setData\<close>, the type table handed to \<^verbatim>\<open>setTypeInfo\<close>. Objects and
  arrays are shared by reference (the item returned by \<^verbatim>\<open>getItem\<close> is the very object held
  in the store, the array returned by \<^verbatim>\<open>get\<close> is the very array held in the cache), so they
  live in an explicit heap of cells and a value refers to them by address.

  An object cell lists its own properties in enumeration order. An array cell lists its
  elements and, separately, the named (non-index) properties assigned to it. Numbers are
  integers (JSON numbers are only tested for truthiness here), and properties inherited
  from \<^verbatim>\<open>Object.prototype\<close> are not modelled.
\<close>

type_synonym addr = nat

datatype jsval = Undefined | Null | Bool bool | Num int | Str string | Ref addr

datatype cell = HObj "(string \<times> jsval) list" | HArr "jsval list" "(string \<times> jsval) list"

type_synonym heap = "cell list"

datatype error = TypeError | PaginateError

text \<open>\<^verbatim>\<open>!v\<close> is \<open>\<not> truthy v\<close>.\<close>

fun truthy :: "jsval \<Rightarrow> bool" where
  "truthy Undefined = False"
| "truthy Null = False"
| "truthy (Bool b) = b"
| "truthy (Num n) = (n \<noteq> 0)"
| "truthy (Str s) = (s \<noteq> [])"
| "truthy (Ref a) = True"

text \<open>Decimal rendering of array indices and of numbers used as property names.\<close>

fun dec :: "nat \<Rightarrow> string" where
  "dec n = (if n < 10 then [char_of (48 + n)] else dec (n div 10) @ [char_of (48 + n mod 10)])"

declare dec.simps [simp del]

definition dec_int :: "int \<Rightarrow> string" where
  "dec_int i = (if i < 0 then CHR ''-'' # dec (nat (- i)) else dec (nat i))"

text \<open>\<^verbatim>\<open>Array.prototype.join(',')\<close> on an array of strings.\<close>

fun comma_join :: "string list \<Rightarrow> string" where
  "comma_join [] = []"
| "comma_join [x] = x"
| "comma_join (x # y # ys) = x @ CHR '','' # comma_join (y # ys)"

text \<open>The properties a \<^verbatim>\<open>for-in\<close> loop (and lodash's iteration) sees, in order.\<close>

fun entries :: "cell \<Rightarrow> (string \<times> jsval) list" where
  "entries (HObj fs) = fs"
| "entries (HArr xs ps) = zip (map dec [0..<length xs]) xs @ ps"

fun cell_get :: "cell \<Rightarrow> string \<Rightarrow> jsval" where
  "cell_get (HObj fs) k = (case map_of fs k of Some v \<Rightarrow> v | None \<Rightarrow> Undefined)"
| "cell_get (HArr xs ps) k =
     (case map_of (zip (map dec [0..<length xs]) xs) k of
        Some v \<Rightarrow> v
      | None \<Rightarrow>
          if k = ''length'' then Num (int (length xs))
          else (case map_of ps k of Some v \<Rightarrow> v | None \<Rightarrow> Undefined))"

text \<open>
  Assignment to a named property. The program assigns only \<^verbatim>\<open>_id\<close> and \<^verbatim>\<open>_type\<close>, neither
  of which is an array index: an existing property keeps its place, a new one is added
  last.
\<close>

fun cell_set :: "cell \<Rightarrow> string \<Rightarrow> jsval \<Rightarrow> cell" where
  "cell_set (HObj fs) k v = HObj (AList.update k v fs)"
| "cell_set (HArr xs ps) k v = HArr xs (AList.update k v ps)"

definition cell_at :: "heap \<Rightarrow> addr \<Rightarrow> cell" where
  "cell_at h a = (if a < length h then h ! a else HObj [])"

text \<open>\<^verbatim>\<open>v[k]\<close>: reading a property of \<^verbatim>\<open>undefined\<close> or \<^verbatim>\<open>null\<close> throws a TypeError.\<close>

fun get_prop :: "heap \<Rightarrow> jsval \<Rightarrow> string \<Rightarrow> error + jsval" where
  "get_prop h Undefined k = Inl TypeError"
| "get_prop h Null k = Inl TypeError"
| "get_prop h (Bool b) k = Inr Undefined"
| "get_prop h (Num n) k = Inr Undefined"
| "get_prop h (Str s) k =
     Inr (if k = ''length'' then Num (int (length s))
          else (case map_of (zip (map dec [0..<length s]) (map (\<lambda>ch. Str [ch]) s)) k of
                  Some v \<Rightarrow> v | None \<Rightarrow> Undefined))"
| "get_prop h (Ref a) k = Inr (cell_get (cell_at h a) k)"

text \<open>
  \<^verbatim>\<open>v[k] = x\<close> under \<^verbatim>\<open>'use strict'\<close> (line 1 of the file): assigning a property on a
  primitive throws a TypeError.
\<close>

fun set_prop :: "heap \<Rightarrow> jsval \<Rightarrow> string \<Rightarrow> jsval \<Rightarrow> error + heap" where
  "set_prop h (Ref a) k x = Inr (h[a := cell_set (cell_at h a) k x])"
| "set_prop h Undefined k x = Inl TypeError"
| "set_prop h Null k x = Inl TypeError"
| "set_prop h (Bool b) k x = Inl TypeError"
| "set_prop h (Num n) k x = Inl TypeError"
| "set_prop h (Str s) k x = Inl TypeError"

text \<open>
  A value used as a property name. Strings, numbers, booleans, \<^verbatim>\<open>null\<close>, \<^verbatim>\<open>undefined\<close> and
  plain objects are rendered as JavaScript renders them; an array is the comma-join of its
  elements, where \<^verbatim>\<open>null\<close> and \<^verbatim>\<open>undefined\<close> are empty and a nested reference is rendered
  as an object is.
\<close>

fun prim_key :: "jsval \<Rightarrow> string" where
  "prim_key Undefined = ''undefined''"
| "prim_key Null = ''null''"
| "prim_key (Bool b) = (if b then ''true'' else ''false'')"
| "prim_key (Num n) = dec_int n"
| "prim_key (Str s) = s"
| "prim_key (Ref a) = ''[object Object]''"

fun elem_key :: "jsval \<Rightarrow> string" where
  "elem_key Undefined = []"
| "elem_key Null = []"
| "elem_key v = prim_key v"

fun to_key :: "heap \<Rightarrow> jsval \<Rightarrow> string" where
  "to_key h (Ref a) =
     (case cell_at h a of
        HObj fs \<Rightarrow> ''[object Object]''
      | HArr xs ps \<Rightarrow> comma_join (map elem_key xs))"
| "to_key h v = prim_key v"

text \<open>
  \<^verbatim>\<open>s.split(" ", 2)\<close>: the string is cut at every space and the first two pieces are
  kept.
\<close>

fun split_on :: "char \<Rightarrow> string \<Rightarrow> string list" where
  "split_on sep [] = [[]]"
| "split_on sep (ch # s) =
     (if ch = sep then [] # split_on sep s
      else (case split_on sep s of
              [] \<Rightarrow> [[ch]]
            | p # ps \<Rightarrow> (ch # p) # ps))"

definition split2 :: "string \<Rightarrow> string list" where
  "split2 s = take 2 (split_on CHR '' '' s)"

text \<open>
  \<^verbatim>\<open>_.isEmpty\<close>: an array or a string is empty when its length is 0, an object when it has
  no own property; every other value counts as empty.
\<close>

fun isEmpty :: "heap \<Rightarrow> jsval \<Rightarrow> bool" where
  "isEmpty h (Ref a) = (case cell_at h a of HObj fs \<Rightarrow> fs = [] | HArr xs ps \<Rightarrow> xs = [])"
| "isEmpty h (Str s) = (s = [])"
| "isEmpty h v = True"

section \<open>The render context\<close>

text \<open>
  The fields of \<^verbatim>\<open>this\<close> in \<^verbatim>\<open>swigFunctions\<close> (lines 16 to 27). The content store maps a
  type slug to the address of that type's collection (or, for a one-off type, of its single
  instance); the type table maps a slug to its name and its \<^verbatim>\<open>oneOff\<close> flag. The field
  \<open>paginateFlag\<close> is \<^verbatim>\<open>self.paginate\<close>. \<open>maxPage\<close> is a JavaScript number: the result of
  \<^verbatim>\<open>Math.ceil(n / perPage)\<close> is infinite or not a number when \<^verbatim>\<open>perPage\<close> is 0.
\<close>

record tinfo =
  name :: string
  oneOff :: bool

datatype jsnum = Fin int | PosInf | NotANumber

record ctx =
  data :: "(string \<times> addr) list"
  settings :: "(string \<times> jsval) list"
  typeInfo :: "(string \<times> tinfo) list"
  paginateFlag :: bool
  curPage :: int
  maxPage :: jsnum
  pageUrl :: string
  paginationBaseUrl :: "string option"
  cachedData :: "(string \<times> jsval) list"
  CURRENT_URL :: string
  heap :: heap

text \<open>
  The host's clock and date parser: \<^verbatim>\<open>Date.now()\<close> and \<^verbatim>\<open>Date.parse\<close>, whose result is
  \<open>None\<close> for \<^verbatim>\<open>NaN\<close>. One call of a template function reads one instant.
\<close>

record env =
  now :: int
  parse :: "jsval \<Rightarrow> int option"

type_synonym 'a result = "(error + 'a) \<times> ctx"




section \<open>getItem and getItems\<close>

text \<open>\<^verbatim>\<open>return {}\<close>: a fresh empty object.\<close>

definition empty_item :: "ctx \<Rightarrow> jsval result" where
  "empty_item c = (Inr (Ref (length (heap c))), c\<lparr>heap := heap c @ [HObj []]\<rparr>)"

text \<open>\<^verbatim>\<open>self.data[t]\<close>\<close>

definition data_at :: "ctx \<Rightarrow> string \<Rightarrow> jsval" where
  "data_at c t = (case map_of (data c) t of Some a \<Rightarrow> Ref a | None \<Rightarrow> Undefined)"

text \<open>
  Lines 117 to 141 of \<^verbatim>\<open>getItem\<close>, once \<^verbatim>\<open>type\<close> and \<^verbatim>\<open>key\<close> are fixed: \<open>tv\<close> is the
  value of the variable \<^verbatim>\<open>type\<close>, \<open>t\<close> and \<open>k\<close> are \<^verbatim>\<open>type\<close> and \<^verbatim>\<open>key\<close> as property names.
  \<open>getItem_tag\<close> is lines 140 and 141.
\<close>

definition getItem_tag :: "jsval \<Rightarrow> jsval \<Rightarrow> ctx \<Rightarrow> jsval result" where
  "getItem_tag tv item c =
     (case set_prop (heap c) item ''_type'' tv of
        Inl err \<Rightarrow> (Inl err, c)
      | Inr h' \<Rightarrow> (Inr item, c\<lparr>heap := h'\<rparr>))"

definition getItem_found :: "env \<Rightarrow> jsval \<Rightarrow> string \<Rightarrow> string \<Rightarrow> ctx \<Rightarrow> jsval result" where
  "getItem_found e tv t k c =
     (case map_of (typeInfo c) t of
        None \<Rightarrow> empty_item c
      | Some ti \<Rightarrow>
          (case get_prop (heap c) (data_at c t) k of
             Inl err \<Rightarrow> (Inl err, c)
           | Inr item \<Rightarrow>
               if \<not> truthy item then empty_item c
               else if \<not> oneOff ti then
                 (case get_prop (heap c) item ''publish_date'' of
                    Inl err \<Rightarrow> (Inl err, c)
                  | Inr pd \<Rightarrow>
                      if \<not> truthy pd then empty_item c
                      else if (case parse e pd of
                                 None \<Rightarrow> False
                               | Some pdate \<Rightarrow> pdate > now e + 1 * 60 * 1000)
                      then empty_item c
                      else getItem_tag tv item c)
               else getItem_tag tv item c))"

definition getItem :: "env \<Rightarrow> jsval \<Rightarrow> jsval \<Rightarrow> ctx \<Rightarrow> jsval result" where
  "getItem e type key c =
     (if \<not> truthy type then empty_item c
      else if \<not> truthy key then
        (case (case type of
                 Ref a \<Rightarrow>
                   (case cell_at (heap c) a of
                      HArr xs ps \<Rightarrow> (case xs of [] \<Rightarrow> None | x # rest \<Rightarrow> Some x)
                    | HObj fs \<Rightarrow> Some type)
               | _ \<Rightarrow> Some type) of
           None \<Rightarrow> empty_item c
         | Some (Str s) \<Rightarrow>
             (case split2 s of
                [t, k] \<Rightarrow> getItem_found e (Str t) t k c
              | _ \<Rightarrow> empty_item c)
         | Some _ \<Rightarrow> (Inl TypeError, c))
      else getItem_found e type (to_key (heap c) type) (to_key (heap c) key) c)"

text \<open>
  \<^verbatim>\<open>getItems\<close>: the callback of \<^verbatim>\<open>forEach\<close> calls \<^verbatim>\<open>getItem\<close> a first time for the
  emptiness test and a second time for the value it pushes.
\<close>

fun getItems_loop :: "env \<Rightarrow> jsval list \<Rightarrow> jsval list \<Rightarrow> ctx \<Rightarrow> (jsval list) result" where
  "getItems_loop e [] items c = (Inr items, c)"
| "getItems_loop e (itm # rest) items c =
     (case getItem e itm Undefined c of
        (Inl err, c1) \<Rightarrow> (Inl err, c1)
      | (Inr obj, c1) \<Rightarrow>
          if \<not> isEmpty (heap c1) obj then
            (case getItem e itm Undefined c1 of
               (Inl err, c2) \<Rightarrow> (Inl err, c2)
             | (Inr obj2, c2) \<Rightarrow> getItems_loop e rest (items @ [obj2]) c2)
          else getItems_loop e rest items c1)"

definition new_array :: "jsval list \<Rightarrow> ctx \<Rightarrow> jsval result" where
  "new_array xs c = (Inr (Ref (length (heap c))), c\<lparr>heap := heap c @ [HArr xs []]\<rparr>)"

definition getItems :: "env \<Rightarrow> jsval \<Rightarrow> ctx \<Rightarrow> jsval result" where
  "getItems e arr c =
     (if \<not> truthy arr then new_array [] c
      else (case arr of
              Ref a \<Rightarrow>
                (case cell_at (heap c) a of
                   HArr xs ps \<Rightarrow>
                     (case getItems_loop e xs [] c of
                        (Inl err, c') \<Rightarrow> (Inl err, c')
                      | (Inr items, c') \<Rightarrow> new_array items c')
                 | HObj fs \<Rightarrow> (Inl TypeError, c))
            | _ \<Rightarrow> (Inl TypeError, c)))"

section \<open>getCombined\<close>

text \<open>
  The variable \<^verbatim>\<open>data\<close> of \<^verbatim>\<open>getCombined\<close> is either an array built during this call
  (\<^verbatim>\<open>[]\<close>, then the results of \<^verbatim>\<open>concat\<close>), which gets its cell when it is stored in the
  cache and returned, or the object of a one-off type (line 185), which is already in the
  heap. The slugs are strings. lodash's \<^verbatim>\<open>omit\<close>, \<^verbatim>\<open>map\<close> and \<^verbatim>\<open>filter\<close> visit the own
  properties of a collection in enumeration order; its reading of an object with a numeric
  \<^verbatim>\<open>length\<close> property as a list is not modelled.
\<close>

datatype acc = Fresh "jsval list" | Held addr

text \<open>\<^verbatim>\<open>key.indexOf('_') === 0\<close>\<close>

fun underscore_key :: "string \<Rightarrow> bool" where
  "underscore_key [] = False"
| "underscore_key (ch # s) = (ch = CHR ''_'')"

text \<open>Line 189: \<^verbatim>\<open>_.omit\<close> keeps the properties whose key the callback rejects.\<close>

definition omit_underscore :: "(string \<times> jsval) list \<Rightarrow> (string \<times> jsval) list" where
  "omit_underscore fs = filter (\<lambda>(k, v). \<not> underscore_key k) fs"

text \<open>
  Line 192: \<^verbatim>\<open>_.map\<close> writes \<^verbatim>\<open>_id\<close> and \<^verbatim>\<open>_type\<close> on every value, in order, and collects
  the values. What was written before a TypeError stays written.
\<close>

fun annotate :: "string \<Rightarrow> (string \<times> jsval) list \<Rightarrow> heap \<Rightarrow> (error + jsval list) \<times> heap" where
  "annotate n [] h = (Inr [], h)"
| "annotate n ((k, v) # rest) h =
     (case set_prop h v ''_id'' (Str k) of
        Inl err \<Rightarrow> (Inl err, h)
      | Inr h1 \<Rightarrow>
          (case set_prop h1 v ''_type'' (Str n) of
             Inl err \<Rightarrow> (Inl err, h1)
           | Inr h2 \<Rightarrow>
               (case annotate n rest h2 of
                  (Inl err, h3) \<Rightarrow> (Inl err, h3)
                | (Inr vs, h3) \<Rightarrow> (Inr (v # vs), h3))))"

text \<open>Lines 193 to 206: the callback of \<^verbatim>\<open>_.filter\<close>.\<close>

definition published :: "env \<Rightarrow> heap \<Rightarrow> jsval \<Rightarrow> error + bool" where
  "published e h item =
     (case get_prop h item ''publish_date'' of
        Inl err \<Rightarrow> Inl err
      | Inr pd \<Rightarrow>
          if \<not> truthy pd then Inr False
          else if (case parse e pd of
                     None \<Rightarrow> False
                   | Some pdate \<Rightarrow> pdate > now e + 1 * 60 * 1000)
          then Inr False
          else Inr True)"

fun filter_published :: "env \<Rightarrow> heap \<Rightarrow> jsval list \<Rightarrow> error + jsval list" where
  "filter_published e h [] = Inr []"
| "filter_published e h (v # vs) =
     (case published e h v of
        Inl err \<Rightarrow> Inl err
      | Inr keep \<Rightarrow>
          (case filter_published e h vs of
             Inl err \<Rightarrow> Inl err
           | Inr rest \<Rightarrow> Inr (if keep then v # rest else rest)))"

text \<open>
  Line 208, \<^verbatim>\<open>data.concat(tempData)\<close>: an array has \<^verbatim>\<open>concat\<close>, which builds a new array;
  a plain object has none, and calling it throws a TypeError.
\<close>

definition concat_acc :: "heap \<Rightarrow> acc \<Rightarrow> jsval list \<Rightarrow> error + acc" where
  "concat_acc h d ys =
     (case d of
        Fresh xs \<Rightarrow> Inr (Fresh (xs @ ys))
      | Held a \<Rightarrow>
          (case cell_at h a of
             HArr xs ps \<Rightarrow> Inr (Fresh (xs @ ys))
           | HObj fs \<Rightarrow> Inl TypeError))"

text \<open>Lines 182 to 208: the callback of \<^verbatim>\<open>names.forEach\<close>, for one name.\<close>

definition getCombined_step :: "env \<Rightarrow> string \<Rightarrow> acc \<Rightarrow> ctx \<Rightarrow> acc result" where
  "getCombined_step e n d c =
     (let (tempData, c1) =
            (case map_of (data c) n of
               Some a \<Rightarrow> (a, c)
             | None \<Rightarrow> (length (heap c), c\<lparr>heap := heap c @ [HObj []]\<rparr>))
      in if (case map_of (typeInfo c1) n of Some ti \<Rightarrow> oneOff ti | None \<Rightarrow> False)
         then (Inr (Held tempData), c1)
         else (case annotate n (omit_underscore (entries (cell_at (heap c1) tempData))) (heap c1) of
                 (Inl err, h2) \<Rightarrow> (Inl err, c1\<lparr>heap := h2\<rparr>)
               | (Inr vs, h2) \<Rightarrow>
                   (case filter_published e h2 vs of
                      Inl err \<Rightarrow> (Inl err, c1\<lparr>heap := h2\<rparr>)
                    | Inr ys \<Rightarrow>
                        (case concat_acc h2 d ys of
                           Inl err \<Rightarrow> (Inl err, c1\<lparr>heap := h2\<rparr>)
                         | Inr d' \<Rightarrow> (Inr d', c1\<lparr>heap := h2\<rparr>)))))"

fun getCombined_loop :: "env \<Rightarrow> string list \<Rightarrow> acc \<Rightarrow> ctx \<Rightarrow> acc result" where
  "getCombined_loop e [] d c = (Inr d, c)"
| "getCombined_loop e (n # ns) d c =
     (case getCombined_step e n d c of
        (Inl err, c') \<Rightarrow> (Inl err, c')
      | (Inr d', c') \<Rightarrow> getCombined_loop e ns d' c')"

text \<open>\<^verbatim>\<open>self.cachedData[key]\<close>\<close>

definition cached_at :: "ctx \<Rightarrow> string \<Rightarrow> jsval" where
  "cached_at c key = (case map_of (cachedData c) key of Some v \<Rightarrow> v | None \<Rightarrow> Undefined)"

definition getCombined :: "env \<Rightarrow> string list \<Rightarrow> ctx \<Rightarrow> jsval result" where
  "getCombined e names c =
     (if truthy (cached_at c (comma_join names)) then (Inr (cached_at c (comma_join names)), c)
      else (case getCombined_loop e names (Fresh []) c of
              (Inl err, c') \<Rightarrow> (Inl err, c')
            | (Inr d, c') \<Rightarrow>
                (let (v, c'') =
                       (case d of
                          Fresh xs \<Rightarrow> (Ref (length (heap c')), c'\<lparr>heap := heap c' @ [HArr xs []]\<rparr>)
                        | Held a \<Rightarrow> (Ref a, c'))
                 in (Inr v, c''\<lparr>cachedData := AList.update (comma_join names) v (cachedData c'')\<rparr>))))"

section \<open>Pagination\<close>

text \<open>
  Modelled from the spec: \<^verbatim>\<open>utils.slice\<close> of \<^verbatim>\<open>src/libs/utils.js\<close>, which is not among
  the sources. The spec (4.4) describes it as a slice of \<^verbatim>\<open>data\<close> of length \<^verbatim>\<open>perPage\<close>
  starting at the offset, empty when \<^verbatim>\<open>data\<close> has fewer elements than the offset, and the
  available remainder when the slice runs past the end.
\<close>

definition utils_slice :: "'a list \<Rightarrow> nat \<Rightarrow> int \<Rightarrow> 'a list" where
  "utils_slice xs limit offset = take limit (drop (nat offset) xs)"

text \<open>\<^verbatim>\<open>Math.ceil(n / perPage)\<close> for a count \<open>n\<close> and a natural \<^verbatim>\<open>perPage\<close>.\<close>

definition ceil_div :: "nat \<Rightarrow> nat \<Rightarrow> jsnum" where
  "ceil_div n p =
     (if p = 0 then (if n = 0 then NotANumber else PosInf)
      else Fin (int ((n + p - 1) div p)))"

text \<open>
  \<^verbatim>\<open>paginate(data, perPage, pageName)\<close> on an array given by its elements; \<open>None\<close> is an
  omitted \<^verbatim>\<open>pageName\<close>, and an empty one is falsy as well.
\<close>

definition paginate :: "'a list \<Rightarrow> nat \<Rightarrow> string option \<Rightarrow> ctx \<Rightarrow> ('a list) result" where
  "paginate xs perPage pageName c =
     (if curPage c = 1 \<and> paginateFlag c = True then (Inl PaginateError, c)
      else
        (let items = utils_slice xs perPage (int perPage * (curPage c - 1));
             c1 = c\<lparr>paginateFlag := True\<rparr>;
             c2 = (if paginationBaseUrl c1 = None
                   then c1\<lparr>paginationBaseUrl := Some (CURRENT_URL c1)\<rparr> else c1);
             c3 = c2\<lparr>pageUrl := (case pageName of
                                     Some p \<Rightarrow> if p \<noteq> [] then p else pageUrl c2
                                   | None \<Rightarrow> pageUrl c2)\<rparr>;
             c4 = c3\<lparr>maxPage := ceil_div (length xs) perPage\<rparr>
         in (Inr items, c4)))"

definition getCurPage :: "ctx \<Rightarrow> int" where
  "getCurPage c = curPage c"

definition getMaxPage :: "ctx \<Rightarrow> jsnum" where
  "getMaxPage c = maxPage c"

text \<open>\<^verbatim>\<open>self.curPage <= self.maxPage\<close>: a comparison with \<^verbatim>\<open>NaN\<close> is false.\<close>

definition shouldPaginate :: "ctx \<Rightarrow> bool" where
  "shouldPaginate c =
     (case maxPage c of
        Fin m \<Rightarrow> curPage c \<le> m
      | PosInf \<Rightarrow> True
      | NotANumber \<Rightarrow> False)"

definition init :: "ctx \<Rightarrow> ctx" where
  "init c = c\<lparr>paginateFlag := False, curPage := 1, pageUrl := ''page-'',
              maxPage := Fin (- 1), paginationBaseUrl := None\<rparr>"

definition increasePage :: "ctx \<Rightarrow> ctx" where
  "increasePage c = c\<lparr>curPage := curPage c + 1\<rparr>"

section \<open>Frame predicate and a sample site\<close>

text \<open>
  \<open>only_keys K h h'\<close>: going from heap \<open>h\<close> to heap \<open>h'\<close>, no cell of \<open>h\<close> has gone and
  every property of every cell of \<open>h\<close> whose name is outside \<open>K\<close> reads as before.
\<close>

definition only_keys :: "string set \<Rightarrow> heap \<Rightarrow> heap \<Rightarrow> bool" where
  "only_keys K h h' =
     (length h \<le> length h' \<and>
      (\<forall>a k. a < length h \<longrightarrow> k \<notin> K \<longrightarrow>
         cell_get (cell_at h' a) k = cell_get (cell_at h a) k))"

text \<open>
  A site used to run the functions: the clock stands at 1000000 ms; the type
  \<^verbatim>\<open>companies\<close> has five entries (one with an underscore key, one whose key has a space,
  one with an empty \<^verbatim>\<open>publish_date\<close>), \<^verbatim>\<open>about\<close> is a one-off type, and \<^verbatim>\<open>jobs\<close> is
  in the type table but not in the store. Cells 7 and 8 are relation arrays.
\<close>

definition demo_env :: env where
  "demo_env = \<lparr>now = 1000000,
     parse = (\<lambda>v. case v of
                Str s \<Rightarrow> map_of [(''soon'', 1059999), (''late'', 1060001), (''edge'', 1060000)] s
              | _ \<Rightarrow> None)\<rparr>"

definition demo_heap :: heap where
  "demo_heap =
     [HObj [(''42'', Ref 2), (''43'', Ref 3), (''_draft'', Ref 4), (''e'', Ref 5), (''42 x'', Ref 6)],
      HObj [(''title'', Str ''About us'')],
      HObj [(''name'', Str ''Acme''), (''publish_date'', Str ''soon'')],
      HObj [(''name'', Str ''Late''), (''publish_date'', Str ''late'')],
      HObj [(''name'', Str ''Draft''), (''publish_date'', Str ''soon'')],
      HObj [(''name'', Str ''Empty''), (''publish_date'', Str [])],
      HObj [(''name'', Str ''Spaced''), (''publish_date'', Str ''edge'')],
      HArr [Str ''companies 42'', Str ''companies 43'', Str ''nothing''] [],
      HArr [Str ''companies 42'', Str ''jobs 1''] []]"

definition demo_ctx :: ctx where
  "demo_ctx = \<lparr>data = [(''companies'', 0), (''about'', 1)], settings = [],
     typeInfo = [(''companies'', \<lparr>name = ''Companies'', oneOff = False\<rparr>),
                 (''about'', \<lparr>name = ''About'', oneOff = True\<rparr>),
                 (''jobs'', \<lparr>name = ''Jobs'', oneOff = False\<rparr>)],
     paginateFlag = False, curPage = 1, maxPage = Fin (- 1), pageUrl = ''page-'',
     paginationBaseUrl = None, cachedData = [], CURRENT_URL = ''/companies/'',
     heap = demo_heap\<rparr>"

text \<open>A site whose second type slug contains a comma.\<close>

definition demo_commas :: ctx where
  "demo_commas = \<lparr>data = [(''x'', 0), (''x,x'', 1)], settings = [],
     typeInfo = [(''x'', \<lparr>name = ''X'', oneOff = False\<rparr>),
                 (''x,x'', \<lparr>name = ''XX'', oneOff = False\<rparr>)],
     paginateFlag = False, curPage = 1, maxPage = Fin (- 1), pageUrl = ''page-'',
     paginationBaseUrl = None, cachedData = [], CURRENT_URL = ''/'',
     heap = [HObj [(''k1'', Ref 2)],
             HObj [(''k2'', Ref 3)],
             HObj [(''publish_date'', Str ''soon'')],
             HObj [(''publish_date'', Str ''edge'')]]\<rparr>"

section \<open>Heap lemmas\<close>

lemma cell_get_set_other:
  assumes "k' \<noteq> k"
  shows "cell_get (cell_set cl k x) k' = cell_get cl k'"
proof (cases cl)
  case (HObj fs)
  with assms show ?thesis by (simp add: update_conv')
next
  case (HArr xs ps)
  have eq: "map_of (AList.update k x ps) k' = map_of ps k'"
    using assms by (simp add: update_conv')
  show ?thesis
    unfolding HArr cell_set.simps cell_get.simps eq by (rule refl)
qed

lemma cell_at_update:
  "cell_at (h[a := cl]) b = (if b = a \<and> a < length h then cl else cell_at h b)"
  by (simp add: cell_at_def)

lemma cell_at_append: "b < length h \<Longrightarrow> cell_at (h @ [cl]) b = cell_at h b"
  by (simp add: cell_at_def nth_append)


lemma only_keys_refl: "only_keys K h h"
  by (simp add: only_keys_def)

lemma only_keys_trans: "only_keys K h1 h2 \<Longrightarrow> only_keys K h2 h3 \<Longrightarrow> only_keys K h1 h3"
  by (auto simp: only_keys_def)

lemma only_keys_append: "only_keys K h (h @ [cl])"
  by (simp add: only_keys_def cell_at_append)

lemma set_prop_length: "set_prop h v k x = Inr h' \<Longrightarrow> length h' = length h"
  by (cases v) auto

lemma set_prop_other:
  "set_prop h v k x = Inr h' \<Longrightarrow> k' \<noteq> k \<Longrightarrow>
     cell_get (cell_at h' a) k' = cell_get (cell_at h a) k'"
  by (cases v) (auto simp: cell_at_update cell_get_set_other)


subsection \<open>What getCombined leaves alone\<close>

lemma annotate_length: "annotate n ents h = (r, h') \<Longrightarrow> length h' = length h"
proof (induction ents arbitrary: h r h')
  case Nil
  then show ?case by simp
next
  case (Cons kv ents)
  obtain k v where kv: "kv = (k, v)" by (cases kv)
  show ?case
  proof (cases "set_prop h v ''_id'' (Str k)")
    case (Inl err)
    with Cons.prems kv show ?thesis by simp
  next
    case (Inr h1)
    then have l1: "length h1 = length h" by (rule set_prop_length)
    show ?thesis
    proof (cases "set_prop h1 v ''_type'' (Str n)")
      case (Inl err)
      with Cons.prems kv Inr l1 show ?thesis by simp
    next
      case (Inr h2)
      then have l2: "length h2 = length h1" by (rule set_prop_length)
      obtain r3 h3 where a3: "annotate n ents h2 = (r3, h3)" by (cases "annotate n ents h2")
      then have l3: "length h3 = length h2" by (rule Cons.IH)
      from Cons.prems kv \<open>set_prop h v ''_id'' (Str k) = Inr h1\<close> Inr a3
      have "h' = h3" by (cases r3) auto
      with l1 l2 l3 show ?thesis by simp
    qed
  qed
qed

lemma annotate_other:
  "annotate n ents h = (r, h') \<Longrightarrow> k' \<noteq> ''_id'' \<Longrightarrow> k' \<noteq> ''_type'' \<Longrightarrow>
     cell_get (cell_at h' a) k' = cell_get (cell_at h a) k'"
proof (induction ents arbitrary: h r h')
  case Nil
  then show ?case by simp
next
  case (Cons kv ents)
  obtain k v where kv: "kv = (k, v)" by (cases kv)
  show ?case
  proof (cases "set_prop h v ''_id'' (Str k)")
    case (Inl err)
    with Cons.prems kv show ?thesis by simp
  next
    case (Inr h1)
    with Cons.prems(2)
    have e1: "cell_get (cell_at h1 a) k' = cell_get (cell_at h a) k'"
      by (simp add: set_prop_other)
    show ?thesis
    proof (cases "set_prop h1 v ''_type'' (Str n)")
      case (Inl err)
      with Cons.prems kv Inr e1 show ?thesis by simp
    next
      case (Inr h2)
      with Cons.prems(3)
      have e2: "cell_get (cell_at h2 a) k' = cell_get (cell_at h1 a) k'"
        by (simp add: set_prop_other)
      obtain r3 h3 where a3: "annotate n ents h2 = (r3, h3)" by (cases "annotate n ents h2")
      with Cons.prems(2,3)
      have e3: "cell_get (cell_at h3 a) k' = cell_get (cell_at h2 a) k'"
        by (simp add: Cons.IH)
      from Cons.prems(1) kv \<open>set_prop h v ''_id'' (Str k) = Inr h1\<close> Inr a3
      have "h' = h3" by (cases r3) auto
      with e1 e2 e3 show ?thesis by simp
    qed
  qed
qed

lemma annotate_only_keys:
  "annotate n ents h = (r, h') \<Longrightarrow> only_keys {''_id'', ''_type''} h h'"
  unfolding only_keys_def
  by (auto simp: annotate_length annotate_other)

lemma getCombined_step_frame:
  assumes "getCombined_step e n d c = (r, c')"
  shows "only_keys {''_id'', ''_type''} (heap c) (heap c') \<and> c' = c\<lparr>heap := heap c'\<rparr>"
proof -
  obtain tempData c1 where t:
    "(case map_of (data c) n of
        Some a \<Rightarrow> (a, c)
      | None \<Rightarrow> (length (heap c), c\<lparr>heap := heap c @ [HObj []]\<rparr>)) = (tempData, c1)"
    by (metis surj_pair)
  then have c1: "only_keys {''_id'', ''_type''} (heap c) (heap c1) \<and> c1 = c\<lparr>heap := heap c1\<rparr>"
    by (auto split: option.splits simp: only_keys_refl only_keys_append)
  show ?thesis
  proof (cases "(case map_of (typeInfo c1) n of Some ti \<Rightarrow> oneOff ti | None \<Rightarrow> False)")
    case True
    with assms t c1 show ?thesis by (simp add: getCombined_step_def)
  next
    case False
    obtain ra h2 where an:
      "annotate n (omit_underscore (entries (cell_at (heap c1) tempData))) (heap c1) = (ra, h2)"
      by (metis surj_pair)
    then have "only_keys {''_id'', ''_type''} (heap c1) h2" by (rule annotate_only_keys)
    with c1 have t2: "only_keys {''_id'', ''_type''} (heap c) h2"
      by (blast intro: only_keys_trans)
    from assms t False an have "c' = c1\<lparr>heap := h2\<rparr>"
      by (auto simp: getCombined_step_def split: sum.splits)
    with t2 c1 show ?thesis
      by (metis (no_types, lifting) ctx.surjective ctx.update_convs(11) ctx.select_convs(11))
  qed
qed

lemma getCombined_loop_frame:
  "getCombined_loop e ns d c = (r, c') \<Longrightarrow>
     only_keys {''_id'', ''_type''} (heap c) (heap c') \<and> c' = c\<lparr>heap := heap c'\<rparr>"
proof (induction ns arbitrary: d c)
  case Nil
  then show ?case by (simp add: only_keys_refl)
next
  case (Cons n ns)
  obtain r1 c1 where s1: "getCombined_step e n d c = (r1, c1)" by (metis surj_pair)
  then have f1: "only_keys {''_id'', ''_type''} (heap c) (heap c1) \<and> c1 = c\<lparr>heap := heap c1\<rparr>"
    by (rule getCombined_step_frame)
  show ?case
  proof (cases r1)
    case (Inl err)
    with Cons.prems s1 f1 show ?thesis by simp
  next
    case (Inr d1)
    with Cons.prems s1 have "getCombined_loop e ns d1 c1 = (r, c')" by simp
    then have f2: "only_keys {''_id'', ''_type''} (heap c1) (heap c') \<and> c' = c1\<lparr>heap := heap c'\<rparr>"
      by (rule Cons.IH)
    from f1 f2 have "only_keys {''_id'', ''_type''} (heap c) (heap c')"
      by (blast intro: only_keys_trans)
    moreover from f1 f2 have "c' = c\<lparr>heap := heap c'\<rparr>"
      by (metis (no_types, lifting) ctx.surjective ctx.update_convs(11))
    ultimately show ?thesis by simp
  qed
qed


subsection \<open>What getItem leaves alone\<close>





subsection \<open>The query cache\<close>

lemma getCombined_caches:
  assumes "getCombined e ns c = (Inr r, c')"
  shows "cached_at c' (comma_join ns) = r \<and> truthy r"
proof (cases "truthy (cached_at c (comma_join ns))")
  case True
  with assms show ?thesis by (auto simp: getCombined_def)
next
  case False
  obtain r1 c1 where l: "getCombined_loop e ns (Fresh []) c = (r1, c1)" by (metis surj_pair)
  with assms False obtain d where r1: "r1 = Inr d"
    by (cases r1) (auto simp: getCombined_def)
  show ?thesis
  proof (cases d)
    case (Fresh xs)
    with assms False l r1 show ?thesis
      by (auto simp: getCombined_def cached_at_def update_conv')
  next
    case (Held a)
    with assms False l r1 show ?thesis
      by (auto simp: getCombined_def cached_at_def update_conv')
  qed
qed

lemma getCombined_hit:
  "cached_at c (comma_join ns) = r \<Longrightarrow> truthy r \<Longrightarrow> getCombined e ns c = (Inr r, c)"
  by (simp add: getCombined_def)

lemma getCombined_again:
  assumes "fst (getCombined e ns c) = Inr r" and "comma_join ns' = comma_join ns"
  shows "getCombined e' ns' (snd (getCombined e ns c)) = getCombined e ns c"
proof -
  from assms(1) have g: "getCombined e ns c = (Inr r, snd (getCombined e ns c))"
    by (metis prod.collapse)
  from getCombined_caches [OF g] assms(2)
  have "cached_at (snd (getCombined e ns c)) (comma_join ns') = r \<and> truthy r" by simp
  then have "getCombined e' ns' (snd (getCombined e ns c)) = (Inr r, snd (getCombined e ns c))"
    by (simp add: getCombined_hit)
  with g show ?thesis by simp
qed

lemma append_sep_eq:
  "sep \<notin> set x \<Longrightarrow> sep \<notin> set y \<Longrightarrow> x @ sep # r = y @ sep # s \<Longrightarrow> x = y \<and> r = s"
proof (induction x arbitrary: y)
  case Nil
  then show ?case by (cases y) auto
next
  case (Cons a x)
  then show ?case by (cases y) auto
qed

lemma comma_join_inj:
  "length xs = length ys \<Longrightarrow> \<forall>x \<in> set xs. CHR '','' \<notin> set x \<Longrightarrow>
   \<forall>y \<in> set ys. CHR '','' \<notin> set y \<Longrightarrow> comma_join xs = comma_join ys \<Longrightarrow> xs = ys"
proof (induction xs ys rule: list_induct2)
  case Nil
  then show ?case by simp
next
  case (Cons x xs y ys)
  show ?case
  proof (cases xs)
    case Nil
    with Cons show ?thesis by simp
  next
    case xs: (Cons x' xs')
    with Cons.hyps obtain y' ys' where ys: "ys = y' # ys'" by (cases ys) auto
    from Cons.prems xs ys
    have "x @ CHR '','' # comma_join xs = y @ CHR '','' # comma_join ys" by simp
    with Cons.prems have "x = y \<and> comma_join xs = comma_join ys"
      by (intro append_sep_eq) auto
    with Cons show ?thesis by simp
  qed
qed

lemma getCombined_cache_other:
  assumes "key \<noteq> comma_join ns"
  shows "cached_at (snd (getCombined e ns c)) key = cached_at c key"
proof (cases "truthy (cached_at c (comma_join ns))")
  case True
  then show ?thesis by (simp add: getCombined_def)
next
  case False
  obtain r1 c1 where l: "getCombined_loop e ns (Fresh []) c = (r1, c1)" by (metis surj_pair)
  then have "c1 = c\<lparr>heap := heap c1\<rparr>" using getCombined_loop_frame by blast
  then obtain h1 where "c1 = c\<lparr>heap := h1\<rparr>" by blast
  then have cd: "cachedData c1 = cachedData c" by simp
  show ?thesis
  proof (cases r1)
    case (Inl err)
    with False l cd show ?thesis by (simp add: getCombined_def cached_at_def)
  next
    case (Inr d)
    with False l cd assms show ?thesis
      by (cases d) (simp_all add: getCombined_def cached_at_def update_conv')
  qed
qed

lemma demo_commas_single:
  "getCombined demo_env [''x,x''] demo_commas
     = (Inr (Ref 4),
        demo_commas\<lparr>heap := [HObj [(''k1'', Ref 2)],
             HObj [(''k2'', Ref 3)],
             HObj [(''publish_date'', Str ''soon'')],
             HObj [(''publish_date'', Str ''edge''), (''_id'', Str ''k2''), (''_type'', Str ''x,x'')],
             HArr [Ref 3] []],
          cachedData := [(''x,x'', Ref 4)]\<rparr>)"
  by (simp add: getCombined_def getCombined_step_def cached_at_def cell_at_def omit_underscore_def
      published_def demo_commas_def demo_env_def concat_acc_def)

lemma demo_commas_double:
  "fst (getCombined demo_env [''x'', ''x''] demo_commas) = Inr (Ref 4)
   \<and> cell_at (heap (snd (getCombined demo_env [''x'', ''x''] demo_commas))) 4 = HArr [Ref 2, Ref 2] []"
  by (simp add: getCombined_def getCombined_step_def cached_at_def cell_at_def omit_underscore_def
      published_def demo_commas_def demo_env_def concat_acc_def)

subsection \<open>Splitting a relation string\<close>

lemma split_on_no_sep: "sep \<notin> set s \<Longrightarrow> split_on sep s = [s]"
  by (induction s) auto

lemma split_on_at_sep:
  "sep \<notin> set t \<Longrightarrow> split_on sep (t @ sep # u) = t # split_on sep u"
  by (induction t) auto

lemma split_on_nonempty: "split_on sep s \<noteq> []"
  by (induction s) (auto split: list.splits)

lemma split2_no_space: "CHR '' '' \<notin> set s \<Longrightarrow> split2 s = [s]"
  by (simp add: split2_def split_on_no_sep)

lemma split2_two:
  "CHR '' '' \<notin> set t \<Longrightarrow> CHR '' '' \<notin> set k \<Longrightarrow> split2 (t @ CHR '' '' # k) = [t, k]"
  by (simp add: split2_def split_on_at_sep split_on_no_sep)

lemma split2_more:
  "CHR '' '' \<notin> set t \<Longrightarrow> CHR '' '' \<notin> set k \<Longrightarrow>
     split2 (t @ CHR '' '' # k @ CHR '' '' # rest) = [t, k]"
proof -
  assume t: "CHR '' '' \<notin> set t" and k: "CHR '' '' \<notin> set k"
  obtain p ps where "split_on CHR '' '' rest = p # ps"
    using split_on_nonempty by (cases "split_on CHR '' '' rest") auto
  with t k show ?thesis
    by (simp add: split2_def split_on_at_sep)
qed

subsection \<open>The loop of getCombined\<close>



subsection \<open>The publish-date filter\<close>











section \<open>Claims\<close>

subsection \<open>C1: the visibility rule\<close>




subsection \<open>C2: getItem and getItems on a type missing from the store\<close>

text \<open>
  C2 says that \<^verbatim>\<open>getItem\<close> and \<^verbatim>\<open>getItems\<close> never raise, in particular when the requested
  type slug is in the type table but not in the content store. There line 121 reads
  \<^verbatim>\<open>self.data[type][key]\<close> with \<^verbatim>\<open>self.data[type]\<close> undefined: a TypeError, in both call
  forms of \<^verbatim>\<open>getItem\<close> and in \<^verbatim>\<open>getItems\<close>. The sibling \<^verbatim>\<open>getCombined\<close> guards the same read
  with \<^verbatim>\<open>self.data[name] || {}\<close> (line 182). On relations that are hidden or malformed
  (cell 7 of the sample site) \<^verbatim>\<open>getItems\<close> does what the claim says and leaves them out.
\<close>

theorem getItem_missing_store_type_raises:
  "map_of (typeInfo demo_ctx) ''jobs'' = Some \<lparr>name = ''Jobs'', oneOff = False\<rparr>
   \<and> map_of (data demo_ctx) ''jobs'' = None
   \<and> getItem demo_env (Str ''jobs'') (Str ''1'') demo_ctx = (Inl TypeError, demo_ctx)
   \<and> getItem demo_env (Str ''jobs 1'') Undefined demo_ctx = (Inl TypeError, demo_ctx)
   \<and> cell_at (heap demo_ctx) 8 = HArr [Str ''companies 42'', Str ''jobs 1''] []
   \<and> fst (getItems demo_env (Ref 8) demo_ctx) = Inl TypeError
   \<and> cell_at (heap demo_ctx) 7 = HArr [Str ''companies 42'', Str ''companies 43'', Str ''nothing''] []
   \<and> fst (getItems demo_env (Ref 7) demo_ctx) = Inr (Ref 11)
   \<and> cell_at (heap (snd (getItems demo_env (Ref 7) demo_ctx))) 11 = HArr [Ref 2] []"
  by (simp add: getItem_def getItem_found_def getItem_tag_def data_at_def cell_at_def empty_item_def
      new_array_def demo_ctx_def demo_heap_def demo_env_def split2_def getItems_def)

subsection \<open>C3: the pagination-conflict guard\<close>

text \<open>
  C3: \<^verbatim>\<open>paginate\<close> raises the pagination-conflict error exactly when \<^verbatim>\<open>curPage\<close> is 1 and
  pagination is already active, and it raises nothing else; when it raises, the context is
  left as it was. \<^verbatim>\<open>init\<close> makes pagination inactive and a successful \<^verbatim>\<open>paginate\<close> makes it
  active, so a second call on page 1 after \<^verbatim>\<open>init\<close> raises, while a second call on page 2
  returns.
\<close>

theorem paginate_conflict_guard:
  "(fst (paginate xs perPage pageName c) = Inl PaginateError \<longleftrightarrow> curPage c = 1 \<and> paginateFlag c)
   \<and> ((\<exists>err. fst (paginate xs perPage pageName c) = Inl err) \<longleftrightarrow> curPage c = 1 \<and> paginateFlag c)
   \<and> (fst (paginate xs perPage pageName c) = Inl PaginateError \<longrightarrow>
        snd (paginate xs perPage pageName c) = c)
   \<and> \<not> paginateFlag (init c)
   \<and> (\<forall>items. fst (paginate xs perPage pageName c) = Inr items \<longrightarrow>
        paginateFlag (snd (paginate xs perPage pageName c)))
   \<and> fst (paginate ys perPage' pageName' (snd (paginate xs perPage pageName (init c))))
        = Inl PaginateError
   \<and> (\<exists>items. fst (paginate ys perPage' pageName'
          (snd (paginate xs perPage pageName (increasePage (init c))))) = Inr items)"
  by (auto simp: paginate_def init_def increasePage_def Let_def)

theorem paginate_conflict_guard_witness:
  "fst (paginate [Num 1, Num 2] 5 None (demo_ctx\<lparr>paginateFlag := True\<rparr>)) = Inl PaginateError
   \<and> snd (paginate [Num 1, Num 2] 5 None (demo_ctx\<lparr>paginateFlag := True\<rparr>))
       = demo_ctx\<lparr>paginateFlag := True\<rparr>
   \<and> fst (paginate [Num 3] 5 None (snd (paginate [Num 1, Num 2] 5 None (init demo_ctx))))
       = Inl PaginateError"
proof -
  have pre: "curPage (demo_ctx\<lparr>paginateFlag := True\<rparr>) = 1 \<and> paginateFlag (demo_ctx\<lparr>paginateFlag := True\<rparr>)"
    by (simp add: demo_ctx_def)
  from paginate_conflict_guard
         [of "[Num 1, Num 2]" 5 None "demo_ctx\<lparr>paginateFlag := True\<rparr>" "[Num 3]" 5 None]
       paginate_conflict_guard [of "[Num 1, Num 2]" 5 None demo_ctx "[Num 3]" 5 None]
       pre
  show ?thesis by simp
qed

subsection \<open>C4: the slice and the page count\<close>

text \<open>
  C4: after \<^verbatim>\<open>init\<close>, \<^verbatim>\<open>paginate(data, 5)\<close> on 12 elements returns the first 5 and sets
  \<^verbatim>\<open>maxPage\<close> to 3; after two \<^verbatim>\<open>increasePage\<close> calls the same call returns the remaining 2;
  \<^verbatim>\<open>shouldPaginate\<close> holds on pages 1, 2 and 3 and not on page 4. In general, when the
  guard does not fire, the result is the elements of \<^verbatim>\<open>data\<close> from offset
  \<^verbatim>\<open>perPage * (curPage - 1)\<close> on, at most \<^verbatim>\<open>perPage\<close> of them, none when the offset is past
  the end, and \<^verbatim>\<open>maxPage\<close> is the count divided by \<^verbatim>\<open>perPage\<close>, rounded up.
\<close>

theorem paginate_slices:
  fixes xs :: "'a list"
  shows
  "(length xs = 12 \<longrightarrow>
      fst (paginate xs 5 None (init c)) = Inr (take 5 xs)
      \<and> maxPage (snd (paginate xs 5 None (init c))) = Fin 3
      \<and> fst (paginate xs 5 None (increasePage (increasePage (snd (paginate xs 5 None (init c))))))
          = Inr (drop 10 xs)
      \<and> length (drop 10 xs) = 2
      \<and> shouldPaginate (snd (paginate xs 5 None (init c)))
      \<and> shouldPaginate (increasePage (snd (paginate xs 5 None (init c))))
      \<and> shouldPaginate (increasePage (increasePage (snd (paginate xs 5 None (init c)))))
      \<and> \<not> shouldPaginate
            (increasePage (increasePage (increasePage (snd (paginate xs 5 None (init c)))))))
   \<and> (\<not> (curPage c = 1 \<and> paginateFlag c) \<longrightarrow> 1 \<le> curPage c \<longrightarrow>
        (\<exists>items. fst (paginate xs perPage pageName c) = Inr items
           \<and> length items = min perPage (length xs - perPage * nat (curPage c - 1))
           \<and> (\<forall>i < length items. items ! i = xs ! (perPage * nat (curPage c - 1) + i))
           \<and> (length xs \<le> perPage * nat (curPage c - 1) \<longrightarrow> items = []))
        \<and> (0 < perPage \<longrightarrow>
             maxPage (snd (paginate xs perPage pageName c))
               = Fin (int ((length xs + perPage - 1) div perPage))))"
proof -
  have off: "nat (int perPage * (curPage c - 1)) = perPage * nat (curPage c - 1)" if "1 \<le> curPage c"
    using that by (simp add: nat_mult_distrib)
  show ?thesis
    by (auto simp: paginate_def init_def increasePage_def Let_def utils_slice_def ceil_div_def
        shouldPaginate_def off min_def)
qed

theorem paginate_slices_witness:
  "fst (paginate [1, 2, 3, 4, 5, 6, 7, 8, 9, 10, 11, 12 :: nat] 5 None (init demo_ctx))
      = Inr [1, 2, 3, 4, 5]
   \<and> fst (paginate [1, 2, 3, 4, 5, 6, 7, 8, 9, 10, 11, 12 :: nat] 5 None
        (increasePage (increasePage
           (snd (paginate [1, 2, 3, 4, 5, 6, 7, 8, 9, 10, 11, 12 :: nat] 5 None (init demo_ctx))))))
      = Inr [11, 12]
   \<and> maxPage (snd (paginate [1, 2, 3, 4, 5, 6, 7, 8, 9, 10, 11, 12 :: nat] 5 None (init demo_ctx)))
      = Fin 3
   \<and> fst (paginate [1, 2, 3, 4, 5, 6, 7, 8, 9, 10, 11, 12 :: nat] 5 None (demo_ctx\<lparr>curPage := 4\<rparr>))
      = Inr []"
proof -
  have pre: "\<not> (curPage (demo_ctx\<lparr>curPage := 4\<rparr>) = 1 \<and> paginateFlag (demo_ctx\<lparr>curPage := 4\<rparr>))"
    "1 \<le> curPage (demo_ctx\<lparr>curPage := 4\<rparr>)"
    "length [1, 2, 3, 4, 5, 6, 7, 8, 9, 10, 11, 12 :: nat] \<le> 5 * nat (curPage (demo_ctx\<lparr>curPage := 4\<rparr>) - 1)"
    by simp_all
  from paginate_slices [of "[1, 2, 3, 4, 5, 6, 7, 8, 9, 10, 11, 12 :: nat]" "demo_ctx\<lparr>curPage := 4\<rparr>" 5 None] pre
  have last: "fst (paginate [1, 2, 3, 4, 5, 6, 7, 8, 9, 10, 11, 12 :: nat] 5 None (demo_ctx\<lparr>curPage := 4\<rparr>))
      = Inr []"
    by blast
  from paginate_slices [of "[1, 2, 3, 4, 5, 6, 7, 8, 9, 10, 11, 12 :: nat]" demo_ctx] last
  show ?thesis by simp
qed

subsection \<open>C5: cache keys and the order of the arguments\<close>

text \<open>
  C5 says that the same argument list twice returns the same cached array, and that argument
  lists that differ only in order use independent cache entries. The second part fails for
  slugs that contain a comma: \<^verbatim>\<open>("x", "x,x")\<close> and \<^verbatim>\<open>("x,x", "x")\<close> differ only in order
  and both have the key \<^verbatim>\<open>x,x,x\<close>, so the second call returns the first call's array (the
  items in the first call's order) and not its own.
\<close>

theorem cache_keying_counterexample:
  "[''x,x'', ''x''] = rev [''x'', ''x,x'']
   \<and> [''x,x'', ''x''] \<noteq> [''x'', ''x,x'']
   \<and> comma_join [''x,x'', ''x''] = comma_join [''x'', ''x,x'']
   \<and> fst (getCombined demo_env [''x'', ''x,x''] demo_commas) = Inr (Ref 4)
   \<and> cell_at (heap (snd (getCombined demo_env [''x'', ''x,x''] demo_commas))) 4 = HArr [Ref 2, Ref 3] []
   \<and> cell_at (heap (snd (getCombined demo_env [''x,x'', ''x''] demo_commas))) 4 = HArr [Ref 3, Ref 2] []
   \<and> getCombined demo_env [''x,x'', ''x''] (snd (getCombined demo_env [''x'', ''x,x''] demo_commas))
       = getCombined demo_env [''x'', ''x,x''] demo_commas"
proof -
  have a: "fst (getCombined demo_env [''x'', ''x,x''] demo_commas) = Inr (Ref 4)
     \<and> cell_at (heap (snd (getCombined demo_env [''x'', ''x,x''] demo_commas))) 4 = HArr [Ref 2, Ref 3] []"
    by (simp add: getCombined_def getCombined_step_def cached_at_def cell_at_def omit_underscore_def
      published_def demo_commas_def demo_env_def concat_acc_def)
  have b: "cell_at (heap (snd (getCombined demo_env [''x,x'', ''x''] demo_commas))) 4 = HArr [Ref 3, Ref 2] []"
    by (simp add: getCombined_def getCombined_step_def cached_at_def cell_at_def omit_underscore_def
      published_def demo_commas_def demo_env_def concat_acc_def)
  have k: "comma_join [''x,x'', ''x''] = comma_join [''x'', ''x,x'']" by simp
  from a have c: "getCombined demo_env [''x,x'', ''x''] (snd (getCombined demo_env [''x'', ''x,x''] demo_commas))
       = getCombined demo_env [''x'', ''x,x''] demo_commas"
    by (intro getCombined_again [OF _ k]) simp
  from a b c show ?thesis by simp
qed

text \<open>
  C5 as amended: a call of \<^verbatim>\<open>getCombined\<close> that returns leaves a context in which the same
  argument list returns the same value again (the same reference) and changes nothing; and
  two different argument lists of the same length whose slugs contain no comma (such as
  \<^verbatim>\<open>("a", "b")\<close> and \<^verbatim>\<open>("b", "a")\<close>) have different cache keys, so that a call with one of
  them leaves the cache entry of the other as it was.
\<close>

theorem cache_keying:
  "((\<exists>r. fst (getCombined e ns c) = Inr r) \<longrightarrow>
      getCombined e' ns (snd (getCombined e ns c)) = getCombined e ns c)
   \<and> (length ns1 = length ns2 \<longrightarrow> ns1 \<noteq> ns2 \<longrightarrow>
        (\<forall>n \<in> set ns1 \<union> set ns2. CHR '','' \<notin> set n) \<longrightarrow>
        comma_join ns1 \<noteq> comma_join ns2
        \<and> cached_at (snd (getCombined e ns1 c)) (comma_join ns2) = cached_at c (comma_join ns2)
        \<and> cached_at (snd (getCombined e ns2 c)) (comma_join ns1) = cached_at c (comma_join ns1))
   \<and> comma_join [''a'', ''b''] \<noteq> comma_join [''b'', ''a'']"
proof -
  have idem: "getCombined e' ns (snd (getCombined e ns c)) = getCombined e ns c"
    if "\<exists>r. fst (getCombined e ns c) = Inr r"
    using that getCombined_again by blast
  have indep: "comma_join ns1 \<noteq> comma_join ns2
        \<and> cached_at (snd (getCombined e ns1 c)) (comma_join ns2) = cached_at c (comma_join ns2)
        \<and> cached_at (snd (getCombined e ns2 c)) (comma_join ns1) = cached_at c (comma_join ns1)"
    if len: "length ns1 = length ns2" and ne: "ns1 \<noteq> ns2"
      and nc: "\<forall>n \<in> set ns1 \<union> set ns2. CHR '','' \<notin> set n"
  proof -
    from nc have "\<forall>x \<in> set ns1. CHR '','' \<notin> set x" "\<forall>y \<in> set ns2. CHR '','' \<notin> set y"
      by auto
    with len ne have k: "comma_join ns1 \<noteq> comma_join ns2"
      using comma_join_inj by blast
    then have k': "comma_join ns2 \<noteq> comma_join ns1" by simp
    from k show ?thesis
      by (simp add: getCombined_cache_other [OF k'] getCombined_cache_other [OF k])
  qed
  show ?thesis using idem indep by simp
qed

theorem cache_keying_witness:
  "getCombined demo_env [''x''] (snd (getCombined demo_env [''x''] demo_commas))
     = getCombined demo_env [''x''] demo_commas
   \<and> fst (getCombined demo_env [''x''] demo_commas) = Inr (Ref 4)
   \<and> comma_join [''x'', ''y''] \<noteq> comma_join [''y'', ''x'']
   \<and> cached_at (snd (getCombined demo_env [''x'', ''y''] demo_commas)) (comma_join [''y'', ''x''])
       = Undefined"
proof -
  have a: "fst (getCombined demo_env [''x''] demo_commas) = Inr (Ref 4)"
    by (simp add: getCombined_def getCombined_step_def cached_at_def cell_at_def omit_underscore_def
      published_def demo_commas_def demo_env_def concat_acc_def)
  have pre: "length [''x'', ''y''] = length [''y'', ''x'']" "[''x'', ''y''] \<noteq> [''y'', ''x'']"
    "\<forall>n \<in> set [''x'', ''y''] \<union> set [''y'', ''x'']. CHR '','' \<notin> set n"
    by simp_all
  have u: "cached_at demo_commas (comma_join [''y'', ''x'']) = Undefined"
    by (simp add: cached_at_def demo_commas_def)
  note t1 = cache_keying [of demo_env "[''x'']" demo_commas demo_env "[''x'', ''y'']" "[''y'', ''x'']"]
  from t1 a have i: "getCombined demo_env [''x''] (snd (getCombined demo_env [''x''] demo_commas))
     = getCombined demo_env [''x''] demo_commas" by blast
  note t2 = cache_keying [of demo_env "[''x'', ''y'']" demo_commas demo_env "[''x'', ''y'']" "[''y'', ''x'']"]
  from t2 pre have j: "comma_join [''x'', ''y''] \<noteq> comma_join [''y'', ''x'']
        \<and> cached_at (snd (getCombined demo_env [''x'', ''y''] demo_commas)) (comma_join [''y'', ''x''])
            = cached_at demo_commas (comma_join [''y'', ''x''])"
    by blast
  from i a j u show ?thesis by simp
qed

subsection \<open>C6: a one-off type in getCombined\<close>




subsection \<open>C7: the relation-string form of getItem\<close>

text \<open>
  C7 says that \<^verbatim>\<open>getItem("companies 42")\<close> equals \<^verbatim>\<open>getItem("companies", "42")\<close> and that,
  when the key part of a relation string contains spaces, the key is the entire remainder
  after the first space. \<^verbatim>\<open>type.split(" ", 2)\<close> cuts at every space and keeps the first two
  pieces: \<^verbatim>\<open>getItem("companies 42 x")\<close> looks up the key \<^verbatim>\<open>42\<close>, not \<^verbatim>\<open>42 x\<close>.
\<close>

theorem relation_string_form_counterexample:
  "fst (getItem demo_env (Str ''companies 42 x'') Undefined demo_ctx) = Inr (Ref 2)
   \<and> fst (getItem demo_env (Str ''companies'') (Str ''42 x'') demo_ctx) = Inr (Ref 6)
   \<and> fst (getItem demo_env (Str ''companies'') (Str ''42'') demo_ctx) = Inr (Ref 2)
   \<and> getItem demo_env (Str ''companies 42 x'') Undefined demo_ctx
       \<noteq> getItem demo_env (Str ''companies'') (Str ''42 x'') demo_ctx"
  by (simp add: getItem_def getItem_found_def getItem_tag_def data_at_def cell_at_def
      demo_ctx_def demo_heap_def demo_env_def split2_def)

text \<open>
  C7 as amended: for a type and a key that are not empty and contain no space,
  \<^verbatim>\<open>getItem(type + " " + key)\<close> equals \<^verbatim>\<open>getItem(type, key)\<close>, result and context; whatever
  follows a second space in a relation string is dropped; and a relation string with no
  space gives the empty item.
\<close>

theorem relation_string_form:
  "(CHR '' '' \<notin> set t \<longrightarrow> CHR '' '' \<notin> set k \<longrightarrow> t \<noteq> [] \<longrightarrow> k \<noteq> [] \<longrightarrow>
      getItem e (Str (t @ '' '' @ k)) Undefined c = getItem e (Str t) (Str k) c)
   \<and> (CHR '' '' \<notin> set t \<longrightarrow> CHR '' '' \<notin> set k \<longrightarrow>
        getItem e (Str (t @ '' '' @ k @ '' '' @ rest)) Undefined c
          = getItem e (Str (t @ '' '' @ k)) Undefined c)
   \<and> (CHR '' '' \<notin> set s \<longrightarrow> getItem e (Str s) Undefined c = empty_item c)
   \<and> getItem e (Str ''companies 42'') Undefined c = getItem e (Str ''companies'') (Str ''42'') c"
proof -
  have two: "getItem e (Str (t @ '' '' @ k)) Undefined c = getItem e (Str t) (Str k) c"
    if "CHR '' '' \<notin> set t" "CHR '' '' \<notin> set k" "t \<noteq> []" "k \<noteq> []" for t k
    using that by (simp add: getItem_def split2_two)
  have more: "getItem e (Str (t @ '' '' @ k @ '' '' @ rest)) Undefined c
          = getItem e (Str (t @ '' '' @ k)) Undefined c"
    if "CHR '' '' \<notin> set t" "CHR '' '' \<notin> set k"
    using that by (simp add: getItem_def split2_two split2_more)
  have none: "getItem e (Str s) Undefined c = empty_item c" if "CHR '' '' \<notin> set s"
    using that by (simp add: getItem_def split2_no_space)
  have ex: "getItem e (Str ''companies 42'') Undefined c = getItem e (Str ''companies'') (Str ''42'') c"
    using two [of "''companies''" "''42''"] by simp
  show ?thesis using two more none ex by blast
qed

theorem relation_string_form_witness:
  "getItem demo_env (Str ''companies 43'') Undefined demo_ctx
     = getItem demo_env (Str ''companies'') (Str ''43'') demo_ctx
   \<and> getItem demo_env (Str ''companies 42 x'') Undefined demo_ctx
     = getItem demo_env (Str ''companies 42'') Undefined demo_ctx
   \<and> getItem demo_env (Str ''nothing'') Undefined demo_ctx = empty_item demo_ctx"
proof -
  note t = relation_string_form [of "''companies''" _ demo_env demo_ctx _ "''nothing''"]
  have a: "getItem demo_env (Str (''companies'' @ '' '' @ ''43'')) Undefined demo_ctx
     = getItem demo_env (Str ''companies'') (Str ''43'') demo_ctx"
    using t [of "''43''"] by simp
  have b: "getItem demo_env (Str (''companies'' @ '' '' @ ''42'' @ '' '' @ ''x'')) Undefined demo_ctx
     = getItem demo_env (Str (''companies'' @ '' '' @ ''42'')) Undefined demo_ctx"
    using t [of "''42''" "''x''"] by simp
  have c: "getItem demo_env (Str ''nothing'') Undefined demo_ctx = empty_item demo_ctx"
    using t [of "''42''" "''x''"] by simp
  from a b c show ?thesis by simp
qed

subsection \<open>C8: setData clears the cache, the other setters do not\<close>



subsection \<open>C9: what getItem and getCombined write into the store\<close>




subsection \<open>C10: two argument lists with one cache key\<close>

text \<open>
  C10: \<^verbatim>\<open>getCombined("a,b")\<close> and \<^verbatim>\<open>getCombined("a", "b")\<close> have the same cache key
  \<^verbatim>\<open>a,b\<close>, so whichever of the two calls runs second after the first has returned gets the
  first call's cached value, the context unchanged, instead of a result of its own; the same
  holds for any two argument lists with the same comma-join.
\<close>

theorem cache_key_collision:
  "comma_join [''a,b''] = ''a,b'' \<and> comma_join [''a'', ''b''] = ''a,b''
   \<and> ((\<exists>r. fst (getCombined e [''a,b''] c) = Inr r) \<longrightarrow>
        getCombined e' [''a'', ''b''] (snd (getCombined e [''a,b''] c)) = getCombined e [''a,b''] c)
   \<and> ((\<exists>r. fst (getCombined e [''a'', ''b''] c) = Inr r) \<longrightarrow>
        getCombined e' [''a,b''] (snd (getCombined e [''a'', ''b''] c)) = getCombined e [''a'', ''b''] c)
   \<and> (comma_join ns2 = comma_join ns1 \<longrightarrow> (\<exists>r. fst (getCombined e ns1 c) = Inr r) \<longrightarrow>
        getCombined e' ns2 (snd (getCombined e ns1 c)) = getCombined e ns1 c)"
proof -
  have gen: "getCombined e' ms (snd (getCombined e ns c)) = getCombined e ns c"
    if "comma_join ms = comma_join ns" and "\<exists>r. fst (getCombined e ns c) = Inr r" for ms ns
    using that getCombined_again by blast
  have k: "comma_join [''a,b''] = comma_join [''a'', ''b'']" by simp
  show ?thesis
    using gen [of "[''a'', ''b'']" "[''a,b'']"] gen [of "[''a,b'']" "[''a'', ''b'']"] gen [of ns2 ns1]
    by simp
qed

theorem cache_key_collision_witness:
  "fst (getCombined demo_env [''x,x''] demo_commas) = Inr (Ref 4)
   \<and> cell_at (heap (snd (getCombined demo_env [''x,x''] demo_commas))) 4 = HArr [Ref 3] []
   \<and> cell_at (heap (snd (getCombined demo_env [''x'', ''x''] demo_commas))) 4 = HArr [Ref 2, Ref 2] []
   \<and> getCombined demo_env [''x'', ''x''] (snd (getCombined demo_env [''x,x''] demo_commas))
       = getCombined demo_env [''x,x''] demo_commas"
proof -
  have k: "comma_join [''x'', ''x''] = comma_join [''x,x'']" by simp
  have r: "\<exists>r. fst (getCombined demo_env [''x,x''] demo_commas) = Inr r"
    by (simp add: demo_commas_single)
  from cache_key_collision [of demo_env demo_commas demo_env "[''x'', ''x'']" "[''x,x'']"] k r
  have "getCombined demo_env [''x'', ''x''] (snd (getCombined demo_env [''x,x''] demo_commas))
       = getCombined demo_env [''x,x''] demo_commas"
    by blast
  then show ?thesis
    using demo_commas_double by (simp add: demo_commas_single cell_at_def)
qed

end
